theory Spec2Isabelle
  imports Main
begin

section \<open>JavaScript values, errors and arrays\<close>

text \<open>
  The binding \<^verbatim>\<open>useDraggable\<close> is a closure over a container reference \<^verbatim>\<open>el\<close>, a
  reactive list \<^verbatim>\<open>list\<close>, a configuration \<^verbatim>\<open>options\<close> and one mutable variable
  \<^verbatim>\<open>instance\<close>. A thrown exception is the left summand of a result; a function that
  mutates takes the state and returns the new one.

  \<^verbatim>\<open>new Error('Root element not found')\<close> is \<open>JsError\<close> with that message; the
  \<^verbatim>\<open>TypeError\<close> of a property read on \<^verbatim>\<open>undefined\<close> or \<^verbatim>\<open>null\<close> and the
  \<^verbatim>\<open>SyntaxError\<close> of \<^verbatim>\<open>JSON.parse\<close> are the platform's.
\<close>

datatype error = TypeError | SyntaxError | JsError string

fun bind_result :: "error + 'a \<Rightarrow> ('a \<Rightarrow> error + 'b) \<Rightarrow> error + 'b" where
  "bind_result (Inl e) f = Inl e"
| "bind_result (Inr x) f = f x"

text \<open>
  Items of a list are JavaScript values. An object or array is a reference into a heap
  of objects, so that two references can be told apart although their contents agree.
  Numbers are integers here; properties of an object are kept in insertion order.
\<close>

datatype jsval = Undefined | Null | VBool bool | VNum int | VStr string | VRef nat

datatype jsobj = Arr "jsval list" | Obj "(string \<times> jsval) list"

text \<open>\<^verbatim>\<open>xs[i]\<close>: a read outside the array gives \<^verbatim>\<open>undefined\<close>.\<close>

definition js_index :: "jsval list \<Rightarrow> int \<Rightarrow> jsval" where
  "js_index xs i = (if 0 \<le> i \<and> nat i < length xs then xs ! nat i else Undefined)"

text \<open>
  Modelled from the spec: \<^verbatim>\<open>isUndefined\<close> of \<^verbatim>\<open>./utils\<close>, which is not among the
  sources; one of the spec's ``type predicates (is-string, is-DOM-element,
  is-undefined)''.
\<close>

definition isUndefined :: "jsval \<Rightarrow> bool" where
  "isUndefined v = (v = Undefined)"

fun js_truthy :: "jsval \<Rightarrow> bool" where
  "js_truthy Undefined = False"
| "js_truthy Null = False"
| "js_truthy (VBool b) = b"
| "js_truthy (VNum n) = (n \<noteq> 0)"
| "js_truthy (VStr s) = (s \<noteq> [])"
| "js_truthy (VRef a) = True"

text \<open>
  The start position of \<^verbatim>\<open>Array.prototype.splice\<close>: a negative index counts from the
  end, and the position is clamped to the array.
\<close>

definition splice_start :: "nat \<Rightarrow> int \<Rightarrow> nat" where
  "splice_start len i = (if i < 0 then nat (max (int len + i) 0) else min (nat i) len)"

text \<open>
  Modelled from the spec: \<^verbatim>\<open>insertElement\<close> of \<^verbatim>\<open>./utils\<close>, which is not among the
  sources. The spec: ``insert into destination collection at the reported new index''.
\<close>

definition insertElement :: "jsval list \<Rightarrow> int \<Rightarrow> jsval \<Rightarrow> jsval list" where
  "insertElement xs i x =
     (let k = splice_start (length xs) i in take k xs @ [x] @ drop k xs)"

text \<open>
  Modelled from the spec: \<^verbatim>\<open>removeElement\<close> of \<^verbatim>\<open>./utils\<close>, which is not among the
  sources. The spec: ``remove the item at old index from this collection''.
\<close>

definition removeElement :: "jsval list \<Rightarrow> int \<Rightarrow> jsval list" where
  "removeElement xs i =
     (let k = splice_start (length xs) i in take k xs @ drop (Suc k) xs)"

text \<open>
  Modelled from the spec: \<^verbatim>\<open>moveArrayElement\<close> of \<^verbatim>\<open>./utils\<close>, which is not among
  the sources. The spec: ``move the item from old index to new index within the same
  collection'', that is, the element is removed from the old index and reinserted at
  the new one.
\<close>

definition moveArrayElement :: "jsval list \<Rightarrow> int \<Rightarrow> int \<Rightarrow> jsval list" where
  "moveArrayElement xs old new =
     insertElement (removeElement xs old) new (js_index xs old)"

section \<open>The default clone function\<close>

text \<open>
  \<^verbatim>\<open>JSON.stringify\<close> and \<^verbatim>\<open>JSON.parse\<close> belong to the platform. The text that
  \<^verbatim>\<open>JSON.stringify\<close> prints is taken as its syntax tree: a \<open>jtree\<close> in which
  \<open>TUndefined\<close> does not occur (\<open>json_tree\<close>). The same trees, with \<open>TUndefined\<close>
  allowed, describe everything that can be reached from a value (\<open>snapshot\<close>): two
  values are deeply equal when their snapshots are the same tree.
\<close>

datatype jtree =
    TUndefined | TNull | TBool bool | TNum int | TStr string
  | TArr "jtree list" | TObj "(string \<times> jtree) list"

fun json_tree :: "jtree \<Rightarrow> bool"
and json_trees :: "jtree list \<Rightarrow> bool"
and json_fields :: "(string \<times> jtree) list \<Rightarrow> bool" where
  "json_tree TUndefined = False"
| "json_tree TNull = True"
| "json_tree (TBool b) = True"
| "json_tree (TNum n) = True"
| "json_tree (TStr s) = True"
| "json_tree (TArr ts) = json_trees ts"
| "json_tree (TObj fs) = json_fields fs"
| "json_trees [] = True"
| "json_trees (t # ts) = (json_tree t \<and> json_trees ts)"
| "json_fields [] = True"
| "json_fields ((k, t) # fs) = (json_tree t \<and> json_fields fs)"

text \<open>
  Reading a value with everything below it. The first argument bounds the depth: a
  heap of \<open>n\<close> objects has no acyclic path through more than \<open>n\<close> of them, so
  \<open>None\<close> at depth \<open>Suc n\<close> means that the value reaches a cycle.
\<close>

fun snapshot :: "nat \<Rightarrow> jsobj list \<Rightarrow> jsval \<Rightarrow> jtree option" where
  "snapshot 0 h v = None"
| "snapshot (Suc n) h Undefined = Some TUndefined"
| "snapshot (Suc n) h Null = Some TNull"
| "snapshot (Suc n) h (VBool b) = Some (TBool b)"
| "snapshot (Suc n) h (VNum i) = Some (TNum i)"
| "snapshot (Suc n) h (VStr s) = Some (TStr s)"
| "snapshot (Suc n) h (VRef a) =
     (if a < length h then
        (case h ! a of
           Arr vs \<Rightarrow> map_option TArr (those (map (snapshot n h) vs))
         | Obj kvs \<Rightarrow>
             map_option TObj
               (those (map (\<lambda>(k, v). map_option (Pair k) (snapshot n h v)) kvs)))
      else None)"

text \<open>
  The walk of \<^verbatim>\<open>JSON.stringify\<close>: the serialization of a property is
  \<^verbatim>\<open>undefined\<close> for the value \<^verbatim>\<open>undefined\<close>; an array prints \<^verbatim>\<open>null\<close> in its
  place, an object leaves the property out.
\<close>

fun serialize :: "nat \<Rightarrow> jsobj list \<Rightarrow> jsval \<Rightarrow> jtree option" where
  "serialize 0 h v = None"
| "serialize (Suc n) h Undefined = Some TUndefined"
| "serialize (Suc n) h Null = Some TNull"
| "serialize (Suc n) h (VBool b) = Some (TBool b)"
| "serialize (Suc n) h (VNum i) = Some (TNum i)"
| "serialize (Suc n) h (VStr s) = Some (TStr s)"
| "serialize (Suc n) h (VRef a) =
     (if a < length h then
        (case h ! a of
           Arr vs \<Rightarrow>
             map_option (\<lambda>ts. TArr (map (\<lambda>t. if t = TUndefined then TNull else t) ts))
               (those (map (serialize n h) vs))
         | Obj kvs \<Rightarrow>
             map_option (\<lambda>fs. TObj (filter (\<lambda>f. snd f \<noteq> TUndefined) fs))
               (those (map (\<lambda>(k, v). map_option (Pair k) (serialize n h v)) kvs)))
      else None)"

text \<open>
  \<^verbatim>\<open>JSON.stringify(v)\<close>: a \<^verbatim>\<open>TypeError\<close> on a cyclic structure, \<^verbatim>\<open>undefined\<close>
  (\<open>None\<close>) for \<^verbatim>\<open>undefined\<close>, the text otherwise.
\<close>

definition JSON_stringify :: "jsobj list \<Rightarrow> jsval \<Rightarrow> error + jtree option" where
  "JSON_stringify h v =
     (case serialize (Suc (length h)) h v of
        None \<Rightarrow> Inl TypeError
      | Some t \<Rightarrow> if t = TUndefined then Inr None else Inr (Some t))"

text \<open>
  \<^verbatim>\<open>JSON.parse\<close> builds a new object for every array and object of the text; the
  new objects are put at the end of the heap.
\<close>

fun build :: "jsobj list \<Rightarrow> jtree \<Rightarrow> jsobj list \<times> jsval"
and build_list :: "jsobj list \<Rightarrow> jtree list \<Rightarrow> jsobj list \<times> jsval list"
and build_fields ::
  "jsobj list \<Rightarrow> (string \<times> jtree) list \<Rightarrow> jsobj list \<times> (string \<times> jsval) list" where
  "build h TUndefined = (h, Undefined)"
| "build h TNull = (h, Null)"
| "build h (TBool b) = (h, VBool b)"
| "build h (TNum n) = (h, VNum n)"
| "build h (TStr s) = (h, VStr s)"
| "build h (TArr ts) =
     (case build_list h ts of (h', vs) \<Rightarrow> (h' @ [Arr vs], VRef (length h')))"
| "build h (TObj fs) =
     (case build_fields h fs of (h', kvs) \<Rightarrow> (h' @ [Obj kvs], VRef (length h')))"
| "build_list h [] = (h, [])"
| "build_list h (t # ts) =
     (case build h t of (h1, v) \<Rightarrow>
        (case build_list h1 ts of (h2, vs) \<Rightarrow> (h2, v # vs)))"
| "build_fields h [] = (h, [])"
| "build_fields h ((k, t) # fs) =
     (case build h t of (h1, v) \<Rightarrow>
        (case build_fields h1 fs of (h2, kvs) \<Rightarrow> (h2, (k, v) # kvs)))"

text \<open>
  \<^verbatim>\<open>JSON.parse(s)\<close>: a \<^verbatim>\<open>SyntaxError\<close> when the argument is \<^verbatim>\<open>undefined\<close> or not a
  JSON text.
\<close>

definition JSON_parse :: "jsobj list \<Rightarrow> jtree option \<Rightarrow> error + jsobj list \<times> jsval" where
  "JSON_parse h s =
     (case s of
        None \<Rightarrow> Inl SyntaxError
      | Some t \<Rightarrow> if json_tree t then Inr (build h t) else Inl SyntaxError)"

definition defaultClone :: "jsobj list \<Rightarrow> jsval \<Rightarrow> error + jsobj list \<times> jsval" where
  "defaultClone h element =
     (if element = Undefined \<or> element = Null then Inr (h, element)
      else bind_result (JSON_stringify h element) (JSON_parse h))"

text \<open>Deep equality and what the serialization format can represent.\<close>

definition deep_equal :: "jsobj list \<Rightarrow> jsval \<Rightarrow> jsobj list \<Rightarrow> jsval \<Rightarrow> bool" where
  "deep_equal h v h' v' =
     (case snapshot (Suc (length h)) h v of
        None \<Rightarrow> False
      | Some t \<Rightarrow> snapshot (Suc (length h')) h' v' = Some t)"

definition representable :: "jsobj list \<Rightarrow> jsval \<Rightarrow> bool" where
  "representable h v =
     (case snapshot (Suc (length h)) h v of None \<Rightarrow> False | Some t \<Rightarrow> json_tree t)"

fun need :: "jtree \<Rightarrow> nat"
and need_list :: "jtree list \<Rightarrow> nat"
and need_fields :: "(string \<times> jtree) list \<Rightarrow> nat" where
  "need TUndefined = 1"
| "need TNull = 1"
| "need (TBool b) = 1"
| "need (TNum n) = 1"
| "need (TStr s) = 1"
| "need (TArr ts) = Suc (need_list ts)"
| "need (TObj fs) = Suc (need_fields fs)"
| "need_list [] = 0"
| "need_list (t # ts) = max (need t) (need_list ts)"
| "need_fields [] = 0"
| "need_fields ((k, t) # fs) = max (need t) (need_fields fs)"

section \<open>The page: elements, engines and reactive lists\<close>

text \<open>
  A drag event of the engine, with the fields the handlers read. Elements and reactive
  lists are named by numbers. An index the engine does not know is \<open>-1\<close>.
\<close>

record event =
  evt_item :: nat
  evt_from :: nat
  evt_oldIndex :: int
  evt_newIndex :: int
  evt_oldDraggableIndex :: int
  evt_newDraggableIndex :: int

text \<open>
  A value of the configuration: a handler of an event, a clone function, or a plain
  value. Both kinds of function run on a state of type \<open>'s\<close>.
\<close>

datatype 's optval =
    Handler "event \<Rightarrow> 's \<Rightarrow> error + 's"
  | CloneFn "jsval \<Rightarrow> 's \<Rightarrow> error + 's \<times> jsval"
  | Plain jsval

type_synonym 's config = "string \<Rightarrow> 's optval option"

text \<open>
  An engine instance: the element it was constructed on, its configuration, the
  property \<^verbatim>\<open>__list\<close> that \<^verbatim>\<open>start\<close> writes on it, and whether it is still attached.
\<close>

record 'c engine =
  e_el :: nat
  e_options :: 'c
  e_list :: "nat option"
  e_live :: bool

text \<open>
  An own property of an element is an engine instance (the handle that the engine
  installs under a key beginning with \<^verbatim>\<open>Sortable\<close>) or any other value.
\<close>

datatype propval = PInstance nat | POther

text \<open>
  The state: the heap of item objects, the value of every reactive list
  (\<^verbatim>\<open>list.value\<close>), the own enumerable properties of every element in order, the clone
  kept on a dragged node under \<^verbatim>\<open>CLONE_ELEMENT_KEY\<close>, the answer of
  \<^verbatim>\<open>document.querySelector\<close>, the digits after \<^verbatim>\<open>Sortable\<close> in the engine's key, all
  engine instances of the page, and the closure's variable \<^verbatim>\<open>instance\<close>.
\<close>

record 'c state =
  st_heap :: "jsobj list"
  st_lists :: "nat \<Rightarrow> jsval list"
  st_props :: "nat \<Rightarrow> (string \<times> propval) list"
  st_stash :: "nat \<Rightarrow> jsval option"
  st_query :: "string \<Rightarrow> error + nat option"
  st_stamp :: string
  st_engines :: "'c engine list"
  inst :: "nat option"

text \<open>
  What \<^verbatim>\<open>unref(el)\<close> or the argument of \<^verbatim>\<open>start\<close> can be: nothing (\<^verbatim>\<open>undefined\<close>,
  \<^verbatim>\<open>null\<close>), a string, an element, or another object with its property \<^verbatim>\<open>$el\<close>.
\<close>

datatype target = Nothing | Selector string | HTMLElement nat | Component "nat option"

text \<open>
  The parameters of \<^verbatim>\<open>useDraggable\<close>: \<^verbatim>\<open>unref(el)\<close>, the reactive list (\<open>None\<close>
  is \<^verbatim>\<open>null\<close>) and \<^verbatim>\<open>unref(options)\<close>. The handlers of the configuration run on a
  state whose engines hold configurations of type \<open>'c\<close>.
\<close>

record 'c params =
  p_el :: target
  p_list :: "nat option"
  p_options :: "'c state config option"

section \<open>The drag engine\<close>

text \<open>
  Modelled from the spec: the engine is an external collaborator, known by its
  interface. Its constructor gives a new live instance on the element and installs the
  handle on the element; \<^verbatim>\<open>destroy\<close> detaches the instance and clears the handle.
\<close>

definition expando :: "'c state \<Rightarrow> string" where
  "expando s = ''Sortable'' @ st_stamp s"

fun set_prop :: "(string \<times> propval) list \<Rightarrow> string \<Rightarrow> propval \<Rightarrow> (string \<times> propval) list" where
  "set_prop [] k v = [(k, v)]"
| "set_prop ((k', v') # ps) k v =
     (if k' = k then (k, v) # ps else (k', v') # set_prop ps k v)"

definition Sortable_new :: "nat \<Rightarrow> 'c \<Rightarrow> 'c state \<Rightarrow> nat \<times> 'c state" where
  "Sortable_new el opts s =
     (length (st_engines s),
      s\<lparr>st_engines :=
          st_engines s @ [\<lparr>e_el = el, e_options = opts, e_list = None, e_live = True\<rparr>],
        st_props :=
          (st_props s)
            (el := set_prop (st_props s el) (expando s) (PInstance (length (st_engines s))))\<rparr>)"

definition Sortable_destroy :: "nat \<Rightarrow> 'c state \<Rightarrow> 'c state" where
  "Sortable_destroy i s =
     (if i < length (st_engines s) then
        s\<lparr>st_engines := (st_engines s)[i := (st_engines s ! i)\<lparr>e_live := False\<rparr>],
          st_props :=
            (st_props s)
              (e_el (st_engines s ! i) :=
                 set_prop (st_props s (e_el (st_engines s ! i))) (expando s) POther)\<rparr>
      else s)"

text \<open>
  The other methods of a live instance are parameters: what \<^verbatim>\<open>option\<close>, \<^verbatim>\<open>save\<close>,
  \<^verbatim>\<open>toArray\<close> and \<^verbatim>\<open>closest\<close> do and return is the engine's business. A result
  \<open>None\<close> is \<^verbatim>\<open>undefined\<close>.
\<close>

record ('c, 'r) engine_api =
  api_option :: "nat \<Rightarrow> string \<Rightarrow> jsval \<Rightarrow> 'c state \<Rightarrow> error + 'c state \<times> 'r option"
  api_save :: "nat \<Rightarrow> 'c state \<Rightarrow> error + 'c state \<times> 'r option"
  api_toArray :: "nat \<Rightarrow> 'c state \<Rightarrow> error + 'c state \<times> 'r option"
  api_closest :: "nat \<Rightarrow> jsval list \<Rightarrow> 'c state \<Rightarrow> error + 'c state \<times> 'r option"

section \<open>Event translation\<close>

text \<open>
  The defaults of the destructuring at the head of \<^verbatim>\<open>useDraggable\<close>:
  \<^verbatim>\<open>clone = defaultClone\<close> when the option is absent, and \<^verbatim>\<open>customUpdate\<close>.
\<close>

definition unref_options :: "'c params \<Rightarrow> 'c state config" where
  "unref_options p = (case p_options p of None \<Rightarrow> Map.empty | Some opts \<Rightarrow> opts)"

definition defaultClone_fn :: "jsval \<Rightarrow> 'c state \<Rightarrow> error + 'c state \<times> jsval" where
  "defaultClone_fn element s =
     (case defaultClone (st_heap s) element of
        Inl e \<Rightarrow> Inl e
      | Inr (h, v) \<Rightarrow> Inr (s\<lparr>st_heap := h\<rparr>, v))"

text \<open>
  Calling a value of the configuration: a value that is not a function of the kind
  called is not callable (a \<^verbatim>\<open>TypeError\<close>). A function is truthy.
\<close>

fun invoke :: "'s optval \<Rightarrow> event \<Rightarrow> 's \<Rightarrow> error + 's" where
  "invoke (Handler f) evt s = f evt s"
| "invoke (CloneFn f) evt s = Inl TypeError"
| "invoke (Plain v) evt s = Inl TypeError"

fun truthy :: "'s optval \<Rightarrow> bool" where
  "truthy (Handler f) = True"
| "truthy (CloneFn f) = True"
| "truthy (Plain v) = js_truthy v"

definition clone :: "'c params \<Rightarrow> jsval \<Rightarrow> 'c state \<Rightarrow> error + 'c state \<times> jsval" where
  "clone p =
     (case unref_options p ''clone'' of
        None \<Rightarrow> defaultClone_fn
      | Some (CloneFn f) \<Rightarrow> f
      | Some (Handler g) \<Rightarrow> (\<lambda>element s. Inl TypeError)
      | Some (Plain v) \<Rightarrow>
          (if v = Undefined then defaultClone_fn else (\<lambda>element s. Inl TypeError)))"

definition customUpdate :: "'c params \<Rightarrow> 'c state optval option" where
  "customUpdate p = unref_options p ''customUpdate''"

text \<open>\<^verbatim>\<open>unref(list)?.[i]\<close>, and \<^verbatim>\<open>list.value\<close>, which throws when the list is \<^verbatim>\<open>null\<close>.\<close>

definition list_at :: "'c params \<Rightarrow> 'c state \<Rightarrow> int \<Rightarrow> jsval" where
  "list_at p s i = (case p_list p of None \<Rightarrow> Undefined | Some r \<Rightarrow> js_index (st_lists s r) i)"

definition onStart :: "'c params \<Rightarrow> event \<Rightarrow> 'c state \<Rightarrow> error + 'c state" where
  "onStart p evt s =
     (case clone p (list_at p s (evt_oldIndex evt)) s of
        Inl e \<Rightarrow> Inl e
      | Inr (s', c) \<Rightarrow> Inr (s'\<lparr>st_stash := (st_stash s')(evt_item evt \<mapsto> c)\<rparr>))"

definition startsWith :: "string \<Rightarrow> string \<Rightarrow> bool" where
  "startsWith k pre = (take (length pre) k = pre)"

text \<open>
  \<^verbatim>\<open>getListFromEl\<close>: the first own key beginning with \<^verbatim>\<open>Sortable\<close>, then
  \<^verbatim>\<open>el[key]?.__list\<close>. \<open>None\<close> is a result that is \<^verbatim>\<open>undefined\<close> or \<^verbatim>\<open>null\<close>.
\<close>

definition getListFromEl :: "'c state \<Rightarrow> nat \<Rightarrow> nat option" where
  "getListFromEl s el =
     (case find (\<lambda>kv. startsWith (fst kv) ''Sortable'') (st_props s el) of
        None \<Rightarrow> None
      | Some (key, PInstance i) \<Rightarrow>
          (if i < length (st_engines s) then e_list (st_engines s ! i) else None)
      | Some (key, POther) \<Rightarrow> None)"

definition onAdd :: "'c params \<Rightarrow> event \<Rightarrow> 'c state \<Rightarrow> error + 'c state" where
  "onAdd p evt s =
     (case getListFromEl s (evt_from evt) of
        None \<Rightarrow> Inl TypeError
      | Some fromList \<Rightarrow>
          (let item = js_index (st_lists s fromList) (evt_oldIndex evt) in
           if isUndefined item then Inr s
           else
             (case p_list p of
                None \<Rightarrow> Inl TypeError
              | Some r \<Rightarrow>
                  Inr (s\<lparr>st_lists :=
                          (st_lists s)
                            (r := insertElement (st_lists s r) (evt_newDraggableIndex evt) item)\<rparr>))))"

definition onRemove :: "'c params \<Rightarrow> event \<Rightarrow> 'c state \<Rightarrow> error + 'c state" where
  "onRemove p evt s =
     (case p_list p of
        None \<Rightarrow> Inl TypeError
      | Some r \<Rightarrow>
          Inr (s\<lparr>st_lists :=
                  (st_lists s)
                    (r := removeElement (st_lists s r) (evt_oldDraggableIndex evt))\<rparr>))"

definition onUpdate :: "'c params \<Rightarrow> event \<Rightarrow> 'c state \<Rightarrow> error + 'c state" where
  "onUpdate p evt s =
     (let moved =
        (case p_list p of
           None \<Rightarrow> Inl TypeError
         | Some r \<Rightarrow>
             Inr (s\<lparr>st_lists :=
                     (st_lists s)
                       (r := moveArrayElement (st_lists s r)
                               (evt_oldDraggableIndex evt) (evt_newDraggableIndex evt))\<rparr>))
      in
        (case customUpdate p of
           None \<Rightarrow> moved
         | Some f \<Rightarrow> if truthy f then invoke f evt s else moved))"

definition presetOptions :: "'c params \<Rightarrow> 'c state config" where
  "presetOptions p =
     [''onUpdate'' \<mapsto> Handler (onUpdate p),
      ''onStart'' \<mapsto> Handler (onStart p),
      ''onAdd'' \<mapsto> Handler (onAdd p),
      ''onRemove'' \<mapsto> Handler (onRemove p)]"

section \<open>The lifecycle controller\<close>

text \<open>
  Truthiness of a target and its property \<^verbatim>\<open>$el\<close>: a string has no \<^verbatim>\<open>$el\<close>, and
  the empty string is falsy.
\<close>

fun falsy :: "target \<Rightarrow> bool" where
  "falsy Nothing = True"
| "falsy (Selector q) = (q = [])"
| "falsy (HTMLElement n) = False"
| "falsy (Component c) = False"

fun dollar_el :: "target \<Rightarrow> target" where
  "dollar_el (Component (Some n)) = HTMLElement n"
| "dollar_el (Component None) = Nothing"
| "dollar_el (Selector q) = Nothing"
| "dollar_el (HTMLElement n) = HTMLElement n"
| "dollar_el Nothing = Nothing"

text \<open>
  Modelled from the spec: \<^verbatim>\<open>isHTMLElement\<close> of \<^verbatim>\<open>./utils\<close>, which is not among the
  sources; one of the spec's ``type predicates (is-string, is-DOM-element,
  is-undefined)''. The test \<^verbatim>\<open>isString\<close> is the match on \<open>Selector\<close> in
  \<^verbatim>\<open>getTarget\<close>.
\<close>

fun isHTMLElement :: "target \<Rightarrow> bool" where
  "isHTMLElement (HTMLElement n) = True"
| "isHTMLElement t = False"

definition querySelector :: "'c state \<Rightarrow> string \<Rightarrow> error + target" where
  "querySelector s q =
     (case st_query s q of
        Inl e \<Rightarrow> Inl e
      | Inr None \<Rightarrow> Inr Nothing
      | Inr (Some n) \<Rightarrow> Inr (HTMLElement n))"

text \<open>
  \<^verbatim>\<open>getTarget\<close>. After the step through \<^verbatim>\<open>$el\<close> the final target is an element
  or falsy; the falsy one is the error.
\<close>

definition getTarget :: "'c params \<Rightarrow> target \<Rightarrow> 'd state \<Rightarrow> error + nat" where
  "getTarget p target s =
     bind_result
       (if falsy target then
          (case p_el p of Selector q \<Rightarrow> querySelector s q | element \<Rightarrow> Inr element)
        else Inr target)
       (\<lambda>finalTarget.
          (case (if \<not> falsy finalTarget \<and> \<not> isHTMLElement finalTarget
                 then dollar_el finalTarget else finalTarget) of
             HTMLElement n \<Rightarrow> Inr n
           | other \<Rightarrow> Inl (JsError ''Root element not found'')))"

text \<open>
  Modelled from the spec: \<^verbatim>\<open>mergeOptionsEvents\<close> of \<^verbatim>\<open>./utils\<close>, which is not among
  the sources. The spec: ``for every handler name present in the binding's required
  set, the resulting handler first invokes the binding's version and then the caller's
  version if present. All other configuration keys pass through unchanged.''
\<close>

definition mergeOptionsEvents :: "'s config \<Rightarrow> 's config \<Rightarrow> 's config" where
  "mergeOptionsEvents binding caller =
     (\<lambda>name.
        (case binding name of
           None \<Rightarrow> caller name
         | Some h \<Rightarrow>
             (case caller name of
                None \<Rightarrow> Some h
              | Some h' \<Rightarrow>
                  Some (Handler (\<lambda>evt s. bind_result (invoke h evt s) (invoke h' evt))))))"

definition restOptions :: "'c params \<Rightarrow> 'c state config" where
  "restOptions p = unref_options p |` (- {''immediate'', ''clone''})"

definition mergeOptions :: "'c params \<Rightarrow> 'c state config" where
  "mergeOptions p =
     mergeOptionsEvents (if p_list p = None then Map.empty else presetOptions p) (restOptions p)"

definition methods_option ::
  "('c, 'r) engine_api \<Rightarrow> string \<Rightarrow> jsval \<Rightarrow> 'c state \<Rightarrow> error + 'c state \<times> 'r option" where
  "methods_option api name v s =
     (case inst s of None \<Rightarrow> Inr (s, None) | Some i \<Rightarrow> api_option api i name v s)"

definition methods_destroy :: "'c state \<Rightarrow> error + 'c state" where
  "methods_destroy s =
     Inr ((case inst s of None \<Rightarrow> s | Some i \<Rightarrow> Sortable_destroy i s)\<lparr>inst := None\<rparr>)"

definition methods_save :: "('c, 'r) engine_api \<Rightarrow> 'c state \<Rightarrow> error + 'c state \<times> 'r option" where
  "methods_save api s =
     (case inst s of None \<Rightarrow> Inr (s, None) | Some i \<Rightarrow> api_save api i s)"

definition methods_toArray :: "('c, 'r) engine_api \<Rightarrow> 'c state \<Rightarrow> error + 'c state \<times> 'r option" where
  "methods_toArray api s =
     (case inst s of None \<Rightarrow> Inr (s, None) | Some i \<Rightarrow> api_toArray api i s)"

definition methods_closest ::
  "('c, 'r) engine_api \<Rightarrow> jsval list \<Rightarrow> 'c state \<Rightarrow> error + 'c state \<times> 'r option" where
  "methods_closest api args s =
     (case inst s of None \<Rightarrow> Inr (s, None) | Some i \<Rightarrow> api_closest api i args s)"

definition pause :: "('c, 'r) engine_api \<Rightarrow> 'c state \<Rightarrow> error + 'c state \<times> 'r option" where
  "pause api s = methods_option api ''disabled'' (VBool True) s"

definition resume :: "('c, 'r) engine_api \<Rightarrow> 'c state \<Rightarrow> error + 'c state \<times> 'r option" where
  "resume api s = methods_option api ''disabled'' (VBool False) s"

text \<open>
  \<^verbatim>\<open>start\<close>. The configuration given to the engine is \<^verbatim>\<open>mergeOptions()\<close>. Its
  handlers are functions on states, and a state holds engines with their
  configurations; the type of states that hold the handlers is therefore one level
  above the type of states that the handlers run on. Nothing in \<^verbatim>\<open>start\<close> looks into
  the configuration.
\<close>

definition start ::
  "'c params \<Rightarrow> target \<Rightarrow> 'c state config state \<Rightarrow> error + 'c state config state" where
  "start p target s =
     bind_result (getTarget p target s)
       (\<lambda>t. bind_result (if inst s \<noteq> None then methods_destroy s else Inr s)
          (\<lambda>s1. case Sortable_new t (mergeOptions p) s1 of
                   (i, s2) \<Rightarrow>
                     Inr (s2\<lparr>inst := Some i,
                             st_engines :=
                               (st_engines s2)[i := (st_engines s2 ! i)\<lparr>e_list := p_list p\<rparr>]\<rparr>)))"

text \<open>
  The live engines of a state, and the invariant of a controller: of the engines it
  has constructed (\<open>own\<close>), the one in \<^verbatim>\<open>instance\<close> is live and no other.
\<close>

definition live :: "'c state \<Rightarrow> nat set" where
  "live s = set (filter (\<lambda>i. e_live (st_engines s ! i)) [0..<length (st_engines s)])"

definition owns :: "nat set \<Rightarrow> 'c state \<Rightarrow> bool" where
  "owns own s =
     ((\<forall>i\<in>own. i < length (st_engines s)) \<and> own \<inter> live s = set_option (inst s))"

section \<open>A page for the examples\<close>

text \<open>
  One reactive list \<open>[A, B, C, D]\<close> (list 0) bound to element 0, a second list
  \<open>[X, Y]\<close> (list 1), an element 1 that no engine was constructed on, no engine yet,
  and a document in which no selector matches.
\<close>

definition page0 :: "'c state" where
  "page0 =
     \<lparr>st_heap = [],
      st_lists = (\<lambda>r. if r = 0 then [VStr ''A'', VStr ''B'', VStr ''C'', VStr ''D'']
                      else if r = 1 then [VStr ''X'', VStr ''Y''] else []),
      st_props = (\<lambda>el. if el = 1 then [(''id'', POther)] else []),
      st_stash = (\<lambda>n. None),
      st_query = (\<lambda>q. Inr None),
      st_stamp = ''1700000000000'',
      st_engines = [],
      inst = None\<rparr>"

definition params0 :: "'c params" where
  "params0 = \<lparr>p_el = HTMLElement 0, p_list = Some 0, p_options = None\<rparr>"

definition evt0 :: event where
  "evt0 =
     \<lparr>evt_item = 10, evt_from = 1, evt_oldIndex = 0, evt_newIndex = 2,
      evt_oldDraggableIndex = 0, evt_newDraggableIndex = 2\<rparr>"

text \<open>An engine whose every method throws: it must not be reached.\<close>

definition api0 :: "('c, jsval) engine_api" where
  "api0 =
     \<lparr>api_option = (\<lambda>i name v s. Inl (JsError ''engine'')),
      api_save = (\<lambda>i s. Inl (JsError ''engine'')),
      api_toArray = (\<lambda>i s. Inl (JsError ''engine'')),
      api_closest = (\<lambda>i args s. Inl (JsError ''engine''))\<rparr>"

text \<open>
  A caller's \<^verbatim>\<open>onStart\<close> that copies what is kept on node 10 to node 11: it sees the
  clone only if the binding's handler has run before it.
\<close>

definition caller_onStart :: "event \<Rightarrow> 'c state \<Rightarrow> error + 'c state" where
  "caller_onStart evt s = Inr (s\<lparr>st_stash := (st_stash s)(11 := st_stash s 10)\<rparr>)"

definition params1 :: "'c params" where
  "params1 = params0\<lparr>p_options := Some [''onStart'' \<mapsto> Handler caller_onStart]\<rparr>"

text \<open>
  The example page after \<^verbatim>\<open>start()\<close> of the binding \<open>params0\<close>: engine 0 is live
  on element 0, with the handle on the element and the list on the instance.
\<close>

definition page1 :: "'c state config state" where
  "page1 =
     \<lparr>st_heap = [],
      st_lists = (\<lambda>r. if r = 0 then [VStr ''A'', VStr ''B'', VStr ''C'', VStr ''D'']
                      else if r = 1 then [VStr ''X'', VStr ''Y''] else []),
      st_props = (\<lambda>el. if el = 0 then [(''Sortable1700000000000'', PInstance 0)]
                       else if el = 1 then [(''id'', POther)] else []),
      st_stash = (\<lambda>n. None),
      st_query = (\<lambda>q. Inr None),
      st_stamp = ''1700000000000'',
      st_engines =
        [\<lparr>e_el = 0, e_options = mergeOptions (params0 :: 'c params), e_list = Some 0,
           e_live = True\<rparr>],
      inst = Some 0\<rparr>"

text \<open>
  The page after a second \<^verbatim>\<open>start()\<close> of the same binding on the same element:
  engine 0 is detached, engine 1 is live on element 0 and its handle is on the element.
\<close>

definition page2 :: "'c state config state" where
  "page2 =
     \<lparr>st_heap = [],
      st_lists = (\<lambda>r. if r = 0 then [VStr ''A'', VStr ''B'', VStr ''C'', VStr ''D'']
                      else if r = 1 then [VStr ''X'', VStr ''Y''] else []),
      st_props = (\<lambda>el. if el = 0 then [(''Sortable1700000000000'', PInstance 1)]
                       else if el = 1 then [(''id'', POther)] else []),
      st_stash = (\<lambda>n. None),
      st_query = (\<lambda>q. Inr None),
      st_stamp = ''1700000000000'',
      st_engines =
        [\<lparr>e_el = 0, e_options = mergeOptions (params0 :: 'c params), e_list = Some 0,
           e_live = False\<rparr>,
         \<lparr>e_el = 0, e_options = mergeOptions (params0 :: 'c params), e_list = Some 0,
           e_live = True\<rparr>],
      inst = Some 1\<rparr>"

text \<open>A heap with the first item of the demo lists, and a list that holds it.\<close>

definition heap0 :: "jsobj list" where
  "heap0 = [Obj [(''name'', VStr ''Joao''), (''id'', VNum 1)], Arr [VRef 0, Null]]"

section \<open>Reordering within a list\<close>

lemma splice_start_in_range: "0 \<le> i \<Longrightarrow> nat i \<le> len \<Longrightarrow> splice_start len i = nat i"
  by (simp add: splice_start_def)

lemma removeElement_in_range:
  "i < length xs \<Longrightarrow> removeElement xs (int i) = take i xs @ drop (Suc i) xs"
  by (simp add: removeElement_def splice_start_in_range Let_def)

lemma insertElement_in_range:
  "j \<le> length ys \<Longrightarrow> insertElement ys (int j) x = take j ys @ [x] @ drop j ys"
  by (simp add: insertElement_def splice_start_in_range Let_def)

lemma moveArrayElement_in_range:
  assumes "i < length xs" "j < length xs"
  shows "moveArrayElement xs (int i) (int j) =
           take j (take i xs @ drop (Suc i) xs) @ [xs ! i] @ drop j (take i xs @ drop (Suc i) xs)"
proof -
  have "j \<le> length (take i xs @ drop (Suc i) xs)"
    using assms by simp
  then show ?thesis
    using assms
    by (simp only: moveArrayElement_def removeElement_in_range insertElement_in_range js_index_def)
       simp
qed

text \<open>
  C3. When no custom update handler is configured and the old index \<open>i\<close> and the new
  index \<open>j\<close> of a reorder event are both in range of the bound list, \<^verbatim>\<open>onUpdate\<close>
  replaces the value of the list by the old value with the element at \<open>i\<close> taken out
  and put back at \<open>j\<close>: the other elements keep their order. The state is otherwise
  unchanged. From \<open>[A, B, C, D]\<close> with old index 0 and new index 2 the list becomes
  \<open>[B, C, A, D]\<close> (the witness).
\<close>

theorem onUpdate_moves_item:
  assumes "customUpdate p = None"
    and "p_list p = Some r"
    and "evt_oldDraggableIndex evt = int i" and "i < length (st_lists s r)"
    and "evt_newDraggableIndex evt = int j" and "j < length (st_lists s r)"
  shows "onUpdate p evt s =
           Inr (s\<lparr>st_lists := (st_lists s)
                  (r := take j (take i (st_lists s r) @ drop (Suc i) (st_lists s r))
                        @ [st_lists s r ! i]
                        @ drop j (take i (st_lists s r) @ drop (Suc i) (st_lists s r)))\<rparr>)"
  using assms by (simp add: onUpdate_def moveArrayElement_in_range)

theorem onUpdate_moves_item_witness:
  "customUpdate (params0 :: 'c params) = None \<and> p_list (params0 :: 'c params) = Some 0
   \<and> evt_oldDraggableIndex evt0 = int 0 \<and> 0 < length (st_lists (page0 :: 'c state) 0)
   \<and> evt_newDraggableIndex evt0 = int 2 \<and> 2 < length (st_lists (page0 :: 'c state) 0)
   \<and> onUpdate params0 evt0 (page0 :: 'c state) =
       Inr (page0\<lparr>st_lists := (st_lists (page0 :: 'c state))
              (0 := [VStr ''B'', VStr ''C'', VStr ''A'', VStr ''D''])\<rparr>)"
  using onUpdate_moves_item [of "params0 :: 'c params" 0 evt0 0 "page0 :: 'c state" 2]
  by (simp add: customUpdate_def unref_options_def params0_def evt0_def page0_def)

text \<open>
  C7. When a custom update handler is configured, \<^verbatim>\<open>onUpdate\<close> is that handler and
  nothing more: the result on every event and state is the result of the handler, so
  the binding itself changes no list. In the witness the handler does nothing, and the
  list \<open>[A, B, C, D]\<close> stays as it is under the event that would have moved \<open>A\<close>.
\<close>

theorem onUpdate_custom_delegates:
  assumes "customUpdate p = Some (Handler f)"
  shows "onUpdate p evt s = f evt s"
  using assms by (simp add: onUpdate_def)

theorem onUpdate_custom_delegates_witness:
  "customUpdate (params0\<lparr>p_options := Some [''customUpdate'' \<mapsto> Handler (\<lambda>evt s. Inr s)]\<rparr>
                  :: 'c params)
     = Some (Handler (\<lambda>evt s. Inr s))
   \<and> onUpdate (params0\<lparr>p_options := Some [''customUpdate'' \<mapsto> Handler (\<lambda>evt s. Inr s)]\<rparr>)
        evt0 (page0 :: 'c state) = Inr page0
   \<and> st_lists (page0 :: 'c state) 0 = [VStr ''A'', VStr ''B'', VStr ''C'', VStr ''D'']"
  using onUpdate_custom_delegates
    [of "params0\<lparr>p_options := Some [''customUpdate'' \<mapsto> Handler (\<lambda>evt s. Inr s)]\<rparr>
           :: 'c params"
        "\<lambda>evt s. Inr s" evt0 "page0 :: 'c state"]
  by (simp add: customUpdate_def unref_options_def page0_def)

section \<open>Starting and the methods of the controller\<close>

text \<open>
  C5. \<^verbatim>\<open>start\<close> called without a target throws the error
  \<^verbatim>\<open>Root element not found\<close> (the spec's \<^verbatim>\<open>TargetNotFoundError\<close>) when the configured
  element reference is empty or the configured selector matches no element of the
  document. The result of \<^verbatim>\<open>start\<close> is the error itself: nothing catches it and
  nothing is tried again.
\<close>

theorem start_root_element_not_found:
  assumes "p_el p = Nothing \<or> (\<exists>q. p_el p = Selector q \<and> st_query s q = Inr None)"
  shows "start p Nothing s = Inl (JsError ''Root element not found'')"
  using assms by (auto simp: start_def getTarget_def querySelector_def)

theorem start_root_element_not_found_witness:
  "(p_el (params0\<lparr>p_el := Selector ''#list''\<rparr> :: 'c params) = Nothing
      \<or> (\<exists>q. p_el (params0\<lparr>p_el := Selector ''#list''\<rparr> :: 'c params) = Selector q
            \<and> st_query (page0 :: 'c state config state) q = Inr None))
   \<and> start (params0\<lparr>p_el := Selector ''#list''\<rparr> :: 'c params) Nothing page0
       = Inl (JsError ''Root element not found'')"
  using start_root_element_not_found
    [of "params0\<lparr>p_el := Selector ''#list''\<rparr> :: 'c params" "page0 :: 'c state config state"]
  by (simp add: page0_def)

text \<open>
  C8. When there is no engine instance, each of \<^verbatim>\<open>save\<close>, \<^verbatim>\<open>toArray\<close>,
  \<^verbatim>\<open>closest\<close>, \<^verbatim>\<open>option\<close>, \<^verbatim>\<open>pause\<close> and \<^verbatim>\<open>resume\<close> returns
  \<^verbatim>\<open>undefined\<close>, throws nothing and leaves the state as it is, whatever the engine's
  own methods would do.
\<close>

theorem methods_without_instance:
  assumes "inst s = None"
  shows "methods_save api s = Inr (s, None)
       \<and> methods_toArray api s = Inr (s, None)
       \<and> methods_closest api args s = Inr (s, None)
       \<and> methods_option api name v s = Inr (s, None)
       \<and> pause api s = Inr (s, None)
       \<and> resume api s = Inr (s, None)"
  using assms
  by (simp add: methods_save_def methods_toArray_def methods_closest_def methods_option_def
      pause_def resume_def)

theorem methods_without_instance_witness:
  "inst (page0 :: 'c state) = None
   \<and> methods_save api0 (page0 :: 'c state) = Inr (page0, None)
   \<and> methods_toArray api0 (page0 :: 'c state) = Inr (page0, None)
   \<and> methods_closest api0 [] (page0 :: 'c state) = Inr (page0, None)
   \<and> methods_option api0 ''disabled'' Undefined (page0 :: 'c state) = Inr (page0, None)
   \<and> pause api0 (page0 :: 'c state) = Inr (page0, None)
   \<and> resume api0 (page0 :: 'c state) = Inr (page0, None)"
  using methods_without_instance [of "page0 :: 'c state" api0 "[]" "''disabled''" Undefined]
  by (simp add: page0_def)

text \<open>
  C9. \<^verbatim>\<open>destroy\<close> throws nothing and leaves no instance; a second \<^verbatim>\<open>destroy\<close>
  right after it throws nothing either and changes nothing: two calls in a row end in
  the state that one call ends in.
\<close>

theorem destroy_idempotent:
  "\<exists>s1. methods_destroy s = Inr s1 \<and> inst s1 = None
        \<and> methods_destroy s1 = Inr s1
        \<and> bind_result (methods_destroy s) methods_destroy = methods_destroy s"
  by (simp add: methods_destroy_def)

section \<open>Drag start and items added from another list\<close>

lemma defaultClone_fn_Undefined: "defaultClone_fn Undefined s = Inr (s, Undefined)"
  by (simp add: defaultClone_fn_def defaultClone_def)

text \<open>
  C10. With the default clone function in use, a drag-start event whose old index is
  outside the bound list makes \<^verbatim>\<open>onStart\<close> keep \<^verbatim>\<open>undefined\<close> on the dragged node
  and nothing else: no error, and every list as before.
\<close>

theorem onStart_missing_item:
  assumes "unref_options p ''clone'' = None"
    and "p_list p = Some r"
    and "evt_oldIndex evt < 0 \<or> int (length (st_lists s r)) \<le> evt_oldIndex evt"
  shows "onStart p evt s = Inr (s\<lparr>st_stash := (st_stash s)(evt_item evt \<mapsto> Undefined)\<rparr>)"
proof -
  have "list_at p s (evt_oldIndex evt) = Undefined"
    using assms(2,3) by (auto simp: list_at_def js_index_def)
  moreover have "clone p = defaultClone_fn"
    using assms(1) by (simp add: clone_def)
  ultimately show ?thesis
    by (simp add: onStart_def defaultClone_fn_Undefined)
qed

theorem onStart_missing_item_witness:
  "unref_options (params0 :: 'c params) ''clone'' = None
   \<and> p_list (params0 :: 'c params) = Some 0
   \<and> (evt_oldIndex (evt0\<lparr>evt_oldIndex := 4\<rparr>) < 0
        \<or> int (length (st_lists (page0 :: 'c state) 0)) \<le> evt_oldIndex (evt0\<lparr>evt_oldIndex := 4\<rparr>))
   \<and> onStart params0 (evt0\<lparr>evt_oldIndex := 4\<rparr>) (page0 :: 'c state)
       = Inr (page0\<lparr>st_stash := (st_stash (page0 :: 'c state))(10 \<mapsto> Undefined)\<rparr>)"
  using onStart_missing_item
    [of "params0 :: 'c params" 0 "evt0\<lparr>evt_oldIndex := 4\<rparr>" "page0 :: 'c state"]
  by (simp add: unref_options_def params0_def evt0_def page0_def)

text \<open>
  The two cases of an add event that finds no item. When the source element resolves
  to a list that has nothing at the old index, \<^verbatim>\<open>onAdd\<close> returns and the state is as
  before. When the source element resolves to no list, \<^verbatim>\<open>fromList.value\<close> is a read
  on \<^verbatim>\<open>undefined\<close>.
\<close>

lemma onAdd_missing_item:
  "getListFromEl s (evt_from evt) = Some fr \<Longrightarrow>
   js_index (st_lists s fr) (evt_oldIndex evt) = Undefined \<Longrightarrow> onAdd p evt s = Inr s"
  by (simp add: onAdd_def isUndefined_def)

lemma onAdd_unresolved_source:
  "getListFromEl s (evt_from evt) = None \<Longrightarrow> onAdd p evt s = Inl TypeError"
  by (simp add: onAdd_def)

text \<open>
  C1. The claim is that an add event whose source element carries no handle is
  skipped without an error. \<^verbatim>\<open>getListFromEl\<close> does return \<^verbatim>\<open>undefined\<close> for such an
  element, but \<^verbatim>\<open>onAdd\<close> then reads \<^verbatim>\<open>fromList.value\<close> and throws a
  \<^verbatim>\<open>TypeError\<close>: for element 1 of the example page, which has no key beginning with
  \<^verbatim>\<open>Sortable\<close>, and for element 2 after an engine was constructed on it outside the
  binding, so that its instance has no \<^verbatim>\<open>__list\<close>.
\<close>

theorem onAdd_unmanaged_source_throws:
  "getListFromEl (page0 :: unit state) (evt_from evt0) = None
   \<and> onAdd params0 evt0 (page0 :: unit state) = Inl TypeError
   \<and> getListFromEl (snd (Sortable_new 2 () page0)) 2 = None
   \<and> onAdd params0 (evt0\<lparr>evt_from := 2\<rparr>) (snd (Sortable_new 2 () page0)) = Inl TypeError"
  by (simp add: onAdd_def getListFromEl_def page0_def evt0_def params0_def Sortable_new_def
      startsWith_def expando_def)

section \<open>Merging the caller's handlers with the binding's\<close>

lemma presetOptions_handlers:
  "presetOptions p ''onUpdate'' = Some (Handler (onUpdate p))"
  "presetOptions p ''onStart'' = Some (Handler (onStart p))"
  "presetOptions p ''onAdd'' = Some (Handler (onAdd p))"
  "presetOptions p ''onRemove'' = Some (Handler (onRemove p))"
  by (simp_all add: presetOptions_def)

lemma restOptions_keeps:
  "name \<noteq> ''immediate'' \<Longrightarrow> name \<noteq> ''clone'' \<Longrightarrow> restOptions p name = unref_options p name"
  by (simp add: restOptions_def restrict_map_def)

lemma restOptions_strips:
  "restOptions p ''immediate'' = None" "restOptions p ''clone'' = None"
  by (simp_all add: restOptions_def restrict_map_def)

lemma invoke_Handler: "invoke (Handler f) evt = f evt"
  by (rule ext) simp

lemma mergeOptionsEvents_both:
  "binding name = Some (Handler h) \<Longrightarrow> caller name = Some (Handler h') \<Longrightarrow>
   mergeOptionsEvents binding caller name
     = Some (Handler (\<lambda>evt s. bind_result (h evt s) (h' evt)))"
  by (simp add: mergeOptionsEvents_def invoke_Handler)

lemma mergeOptions_both:
  assumes "p_list p = Some r"
    and "presetOptions p name = Some (Handler h)"
    and "name \<noteq> ''immediate''" and "name \<noteq> ''clone''"
    and "unref_options p name = Some (Handler h')"
  shows "mergeOptions p name = Some (Handler (\<lambda>evt s. bind_result (h evt s) (h' evt)))"
  using assms by (simp add: mergeOptions_def mergeOptionsEvents_both restOptions_keeps)

text \<open>
  C2. For each of the names \<^verbatim>\<open>onStart\<close>, \<^verbatim>\<open>onAdd\<close>, \<^verbatim>\<open>onRemove\<close> and
  \<^verbatim>\<open>onUpdate\<close> for which the caller's options hold a handler \<open>h'\<close>, the merged
  configuration of a binding with a list holds one handler under that name: it runs
  the binding's handler \<open>h\<close> of that name on the event and then \<open>h'\<close> on the same
  event and on the state that \<open>h\<close> left, each once. (An error thrown by \<open>h\<close> ends the
  call, as any exception does.)
\<close>

theorem mergeOptions_runs_both:
  assumes "p_list p = Some r"
    and "name \<in> {''onStart'', ''onAdd'', ''onRemove'', ''onUpdate''}"
    and "unref_options p name = Some (Handler h')"
  shows "\<exists>h. presetOptions p name = Some (Handler h)
           \<and> h = (if name = ''onStart'' then onStart p else if name = ''onAdd'' then onAdd p
                  else if name = ''onRemove'' then onRemove p else onUpdate p)
           \<and> mergeOptions p name = Some (Handler (\<lambda>evt s. bind_result (h evt s) (h' evt)))"
proof -
  from assms(2) consider "name = ''onStart''" | "name = ''onAdd''" | "name = ''onRemove''"
    | "name = ''onUpdate''" by blast
  then show ?thesis
  proof cases
    case 1
    then show ?thesis
      using mergeOptions_both [OF assms(1) presetOptions_handlers(2) _ _ ] assms(3)
      by (simp add: presetOptions_handlers)
  next
    case 2
    then show ?thesis
      using mergeOptions_both [OF assms(1) presetOptions_handlers(3) _ _ ] assms(3)
      by (simp add: presetOptions_handlers)
  next
    case 3
    then show ?thesis
      using mergeOptions_both [OF assms(1) presetOptions_handlers(4) _ _ ] assms(3)
      by (simp add: presetOptions_handlers)
  next
    case 4
    then show ?thesis
      using mergeOptions_both [OF assms(1) presetOptions_handlers(1) _ _ ] assms(3)
      by (simp add: presetOptions_handlers)
  qed
qed

theorem mergeOptions_runs_both_witness:
  "p_list (params1 :: 'c params) = Some 0
   \<and> ''onStart'' \<in> {''onStart'', ''onAdd'', ''onRemove'', ''onUpdate''}
   \<and> unref_options (params1 :: 'c params) ''onStart'' = Some (Handler caller_onStart)
   \<and> mergeOptions (params1 :: 'c params) ''onStart''
       = Some (Handler (\<lambda>evt s. bind_result (onStart params1 evt s) (caller_onStart evt)))
   \<and> invoke (the (mergeOptions (params1 :: 'c params) ''onStart'')) evt0 (page0 :: 'c state)
       = Inr ((page0 :: 'c state)\<lparr>st_stash := (st_stash (page0 :: 'c state))(10 \<mapsto> VStr ''A'', 11 \<mapsto> VStr ''A'')\<rparr>)"
proof -
  have a: "p_list (params1 :: 'c params) = Some 0"
    by (simp add: params1_def params0_def)
  have c: "unref_options (params1 :: 'c params) ''onStart'' = Some (Handler caller_onStart)"
    by (simp add: params1_def unref_options_def)
  have m: "mergeOptions (params1 :: 'c params) ''onStart''
       = Some (Handler (\<lambda>evt s. bind_result (onStart params1 evt s) (caller_onStart evt)))"
    using mergeOptions_runs_both [of "params1 :: 'c params" 0 "''onStart''" caller_onStart] a c
    by simp
  have "clone (params1 :: 'c params) = defaultClone_fn"
    by (simp add: clone_def params1_def unref_options_def)
  then have s: "onStart params1 evt0 (page0 :: 'c state)
       = Inr ((page0 :: 'c state)\<lparr>st_stash := (st_stash (page0 :: 'c state))(10 \<mapsto> VStr ''A'')\<rparr>)"
    by (simp add: onStart_def list_at_def a js_index_def page0_def evt0_def
        defaultClone_fn_def defaultClone_def JSON_stringify_def JSON_parse_def)
  have "invoke (the (mergeOptions (params1 :: 'c params) ''onStart'')) evt0 (page0 :: 'c state)
       = bind_result (onStart params1 evt0 (page0 :: 'c state)) (caller_onStart evt0)"
    by (simp add: m)
  also have "\<dots> = caller_onStart evt0 ((page0 :: 'c state)\<lparr>st_stash := (st_stash (page0 :: 'c state))(10 \<mapsto> VStr ''A'')\<rparr>)"
    by (subst s) simp
  also have "\<dots> = Inr ((page0 :: 'c state)\<lparr>st_stash := (st_stash (page0 :: 'c state))(10 \<mapsto> VStr ''A'', 11 \<mapsto> VStr ''A'')\<rparr>)"
    by (simp add: caller_onStart_def)
  finally show ?thesis
    using a c m by simp
qed

section \<open>One live engine\<close>

lemma live_iff: "i \<in> live s \<longleftrightarrow> i < length (st_engines s) \<and> e_live (st_engines s ! i)"
  by (auto simp: live_def)

lemma live_Sortable_destroy: "live (Sortable_destroy i s) = live s - {i}"
  by (auto simp: live_iff Sortable_destroy_def nth_list_update split: if_splits)

lemma live_inst_update: "live (s\<lparr>inst := v\<rparr>) = live s"
  by (simp add: live_def)

lemma length_Sortable_destroy: "length (st_engines (Sortable_destroy i s)) = length (st_engines s)"
  by (simp add: Sortable_destroy_def)

lemma methods_destroy_state:
  "methods_destroy s = Inr s1 \<Longrightarrow>
     inst s1 = None \<and> live s1 = live s - set_option (inst s)
     \<and> length (st_engines s1) = length (st_engines s)"
  by (cases "inst s")
     (auto simp: methods_destroy_def live_inst_update live_Sortable_destroy length_Sortable_destroy)

lemma start_unfold:
  assumes "getTarget p target s = Inr t"
    and "(if inst s \<noteq> None then methods_destroy s else Inr s) = Inr s1"
  shows "start p target s =
           Inr (s1\<lparr>st_engines :=
                    st_engines s1 @
                      [\<lparr>e_el = t, e_options = mergeOptions p, e_list = p_list p, e_live = True\<rparr>],
                  st_props :=
                    (st_props s1)
                      (t := set_prop (st_props s1 t) (expando s1)
                              (PInstance (length (st_engines s1)))),
                  inst := Some (length (st_engines s1))\<rparr>)"
  using assms by (simp add: start_def Sortable_new_def)

lemma live_append_engine:
  "st_engines s' = st_engines s1 @ [e] \<Longrightarrow> e_live e \<Longrightarrow>
     live s' = insert (length (st_engines s1)) (live s1)"
  by (auto simp: live_iff nth_append less_Suc_eq)

lemma start_state:
  assumes "getTarget p target s = Inr t"
  shows "\<exists>s'. start p target s = Inr s'
          \<and> inst s' = Some (length (st_engines s))
          \<and> length (st_engines s') = Suc (length (st_engines s))
          \<and> live s' = insert (length (st_engines s)) (live s - set_option (inst s))
          \<and> e_el (st_engines s' ! length (st_engines s)) = t
          \<and> e_list (st_engines s' ! length (st_engines s)) = p_list p"
proof -
  obtain s1 where s1: "(if inst s \<noteq> None then methods_destroy s else Inr s) = Inr s1"
    by (cases "inst s") (simp_all add: methods_destroy_def)
  have l1: "live s1 = live s - set_option (inst s)"
    and n1: "length (st_engines s1) = length (st_engines s)"
    using s1 methods_destroy_state [of s s1] by (auto split: if_splits)
  let ?e = "\<lparr>e_el = t, e_options = mergeOptions p, e_list = p_list p, e_live = True\<rparr>"
  let ?s' = "s1\<lparr>st_engines := st_engines s1 @ [?e],
                 st_props :=
                   (st_props s1)
                     (t := set_prop (st_props s1 t) (expando s1)
                             (PInstance (length (st_engines s1)))),
                 inst := Some (length (st_engines s1))\<rparr>"
  have st: "start p target s = Inr ?s'"
    by (rule start_unfold [OF assms s1])
  have lv: "live ?s' = insert (length (st_engines s1)) (live s1)"
    by (rule live_append_engine [where e = ?e]) simp_all
  have "inst ?s' = Some (length (st_engines s))"
    by (simp add: n1)
  moreover have "length (st_engines ?s') = Suc (length (st_engines s))"
    by (simp add: n1)
  moreover have "live ?s' = insert (length (st_engines s)) (live s - set_option (inst s))"
    using lv by (simp add: l1 n1)
  moreover have "st_engines ?s' ! length (st_engines s) = ?e"
    by (simp add: n1 [symmetric])
  ultimately show ?thesis
    using st by (intro exI [of _ ?s']) simp
qed

lemma start_unresolved: "getTarget p target s = Inl e \<Longrightarrow> start p target s = Inl e"
  by (simp add: start_def)

text \<open>
  The invariant holds for a new controller, which has constructed nothing, and
  \<^verbatim>\<open>destroy\<close> keeps it.
\<close>

lemma owns_initial: "inst s = None \<Longrightarrow> owns {} s"
  by (simp add: owns_def)

lemma owns_methods_destroy:
  assumes "owns own s" and "methods_destroy s = Inr s1"
  shows "owns own s1"
  using assms methods_destroy_state [OF assms(2)] by (auto simp: owns_def)

lemma map_of_set_prop: "map_of (set_prop ps k v) k = Some v"
  by (induction ps) auto

text \<open>
  C4. Let \<open>own\<close> be the engines that the controller has constructed, of which at most
  the one in \<^verbatim>\<open>instance\<close> is live. Every call of \<^verbatim>\<open>start\<close> that resolves a target
  element \<open>t\<close> returns, and it works in this order: first the instance that was active
  (if any) is destroyed, which gives a state \<open>s1\<close> with no instance in which that
  engine is no longer live; then the new engine is constructed on \<open>t\<close> in \<open>s1\<close>, and
  the list is written on it. Afterwards exactly one engine of the controller is live:
  the new one, which is in \<^verbatim>\<open>instance\<close>, sits on \<open>t\<close> and carries the list, and the
  handle on \<open>t\<close> is the new engine (also when the old engine sat on the same element,
  whose handle \<^verbatim>\<open>destroy\<close> clears).
\<close>

theorem start_one_live_engine:
  assumes "owns own s" and "getTarget p target s = Inr t"
  shows "\<exists>s1 s2 s'.
            (if inst s \<noteq> None then methods_destroy s else Inr s) = Inr s1
          \<and> inst s1 = None
          \<and> (\<forall>i. inst s = Some i \<longrightarrow> i \<notin> live s1)
          \<and> Sortable_new t (mergeOptions p) s1 = (length (st_engines s), s2)
          \<and> s' = s2\<lparr>inst := Some (length (st_engines s)),
                      st_engines :=
                        (st_engines s2)
                          [length (st_engines s) :=
                             (st_engines s2 ! length (st_engines s))\<lparr>e_list := p_list p\<rparr>]\<rparr>
          \<and> start p target s = Inr s'
          \<and> inst s' = Some (length (st_engines s))
          \<and> insert (length (st_engines s)) own \<inter> live s' = {length (st_engines s)}
          \<and> owns (insert (length (st_engines s)) own) s'
          \<and> e_el (st_engines s' ! length (st_engines s)) = t
          \<and> e_list (st_engines s' ! length (st_engines s)) = p_list p
          \<and> (\<forall>i. inst s = Some i \<longrightarrow> i \<notin> live s')
          \<and> map_of (st_props s' t) (expando s') = Some (PInstance (length (st_engines s)))"
proof -
  let ?n = "length (st_engines s)"
  obtain s1 where s1: "(if inst s \<noteq> None then methods_destroy s else Inr s) = Inr s1"
    by (cases "inst s") (simp_all add: methods_destroy_def)
  have i1: "inst s1 = None"
    and l1: "live s1 = live s - set_option (inst s)"
    and n1: "length (st_engines s1) = ?n"
    using s1 methods_destroy_state [of s s1] by (auto split: if_splits)
  obtain s2 where s2: "Sortable_new t (mergeOptions p) s1 = (?n, s2)"
    by (simp add: Sortable_new_def n1)
  let ?s' = "s2\<lparr>inst := Some ?n,
                 st_engines := (st_engines s2)[?n := (st_engines s2 ! ?n)\<lparr>e_list := p_list p\<rparr>]\<rparr>"
  have st: "start p target s = Inr ?s'"
    using assms(2) s1 s2 by (simp add: start_def)
  have props: "st_props ?s' t = set_prop (st_props s1 t) (expando s1) (PInstance ?n)"
    and stamp: "expando ?s' = expando s1"
    using s2 by (auto simp: Sortable_new_def expando_def n1)
  have handle: "map_of (st_props ?s' t) (expando ?s') = Some (PInstance ?n)"
    unfolding props stamp by (rule map_of_set_prop)
  obtain s'' where s'': "start p target s = Inr s''" "inst s'' = Some ?n"
    "length (st_engines s'') = Suc ?n"
    "live s'' = insert ?n (live s - set_option (inst s))"
    "e_el (st_engines s'' ! ?n) = t" "e_list (st_engines s'' ! ?n) = p_list p"
    using start_state [OF assms(2)] by blast
  have eq: "s'' = ?s'"
    using st s''(1) by simp
  have bound: "\<forall>i\<in>own. i < ?n" and acc: "own \<inter> live s = set_option (inst s)"
    using assms(1) by (simp_all add: owns_def)
  have one: "insert ?n own \<inter> live s'' = {?n}"
    using acc bound s''(4) by auto
  have ow: "owns (insert ?n own) s''"
    using one bound s''(2,3) by (auto simp: owns_def)
  have dead: "\<forall>i. inst s = Some i \<longrightarrow> i \<notin> live s''"
    using acc bound s''(4) by auto
  have dead1: "\<forall>i. inst s = Some i \<longrightarrow> i \<notin> live s1"
    using l1 by auto
  show ?thesis
    using s1 i1 dead1 s2 st s''(2,5,6) one ow dead handle unfolding eq
    by (intro exI [of _ s1] exI [of _ s2] exI [of _ ?s']) blast
qed

theorem start_one_live_engine_witness:
  "owns {0} (page1 :: 'c state config state)
   \<and> getTarget (params0 :: 'c params) Nothing (page1 :: 'c state config state) = Inr 0
   \<and> start (params0 :: 'c params) Nothing page0 = Inr page1
   \<and> start (params0 :: 'c params) Nothing page1 = Inr page2
   \<and> inst (page2 :: 'c state config state) = Some 1
   \<and> {1, 0} \<inter> live (page2 :: 'c state config state) = {1}
   \<and> owns {1, 0} (page2 :: 'c state config state)
   \<and> e_el (st_engines (page2 :: 'c state config state) ! 1) = 0
   \<and> e_list (st_engines (page2 :: 'c state config state) ! 1) = Some 0
   \<and> 0 \<notin> live (page2 :: 'c state config state)
   \<and> map_of (st_props (page2 :: 'c state config state) 0) (expando (page2 :: 'c state config state))
       = Some (PInstance 1)
   \<and> getListFromEl (page2 :: 'c state config state) 0 = Some 0"
proof -
  have o: "owns {0} (page1 :: 'c state config state)"
    by (simp add: owns_def live_def page1_def)
  have g: "getTarget (params0 :: 'c params) Nothing (page1 :: 'c state config state) = Inr 0"
    by (simp add: getTarget_def params0_def)
  have f: "start (params0 :: 'c params) Nothing page0 = Inr page1"
    by (simp add: start_def getTarget_def params0_def page0_def page1_def Sortable_new_def
        expando_def fun_upd_def cong del: if_weak_cong)
  have r: "start (params0 :: 'c params) Nothing page1 = Inr page2"
    by (simp add: start_def getTarget_def params0_def page1_def page2_def Sortable_new_def
        Sortable_destroy_def methods_destroy_def expando_def fun_upd_def
        cong: if_cong)
  have l: "getListFromEl (page2 :: 'c state config state) 0 = Some 0"
    by (simp add: getListFromEl_def page2_def startsWith_def)
  have n: "length (st_engines (page1 :: 'c state config state)) = 1"
    by (simp add: page1_def)
  have p: "p_list (params0 :: 'c params) = Some 0"
    by (simp add: params0_def)
  from start_one_live_engine [OF o g] obtain s' :: "'c state config state"
    where s: "start (params0 :: 'c params) Nothing page1 = Inr s'"
      and facts: "inst s' = Some (length (st_engines (page1 :: 'c state config state)))"
        "insert (length (st_engines (page1 :: 'c state config state))) {0} \<inter> live s'
           = {length (st_engines (page1 :: 'c state config state))}"
        "owns (insert (length (st_engines (page1 :: 'c state config state))) {0}) s'"
        "e_el (st_engines s' ! length (st_engines (page1 :: 'c state config state))) = 0"
        "e_list (st_engines s' ! length (st_engines (page1 :: 'c state config state)))
           = p_list (params0 :: 'c params)"
        "\<forall>i. inst (page1 :: 'c state config state) = Some i \<longrightarrow> i \<notin> live s'"
        "map_of (st_props s' 0) (expando s')
           = Some (PInstance (length (st_engines (page1 :: 'c state config state))))"
    by blast
  from s r have "s' = page2"
    by simp
  with facts have "inst (page2 :: 'c state config state) = Some 1"
    "{1, 0} \<inter> live (page2 :: 'c state config state) = {1}"
    "owns {1, 0} (page2 :: 'c state config state)"
    "e_el (st_engines (page2 :: 'c state config state) ! 1) = 0"
    "e_list (st_engines (page2 :: 'c state config state) ! 1) = Some 0"
    "0 \<notin> live (page2 :: 'c state config state)"
    "map_of (st_props (page2 :: 'c state config state) 0) (expando (page2 :: 'c state config state))
       = Some (PInstance 1)"
    by (simp_all add: n p page1_def)
  then show ?thesis
    using o g f r l by simp
qed

section \<open>The round trip of the default clone\<close>

text \<open>
  Reading a list of values succeeds exactly when reading each of them does; a read
  that succeeds is not disturbed by objects added at the end of the heap or by a
  larger bound on the depth, and it never needs more depth than the tree is high.
\<close>

lemma those_map_eq_Some:
  "those (map f xs) = Some ys \<longleftrightarrow> list_all2 (\<lambda>x y. f x = Some y) xs ys"
proof (induction xs arbitrary: ys)
  case Nil
  then show ?case by auto
next
  case (Cons x xs)
  then show ?case
    by (cases ys) (auto split: option.splits)
qed

lemma field_Some:
  "(case kv of (k, v) \<Rightarrow> map_option (Pair k) (g v)) = Some kt
     \<longleftrightarrow> fst kt = fst kv \<and> g (snd kv) = Some (snd kt)"
  by (cases kv; cases kt) auto

lemma snapshot_append:
  "snapshot n h v = Some t \<Longrightarrow> snapshot n (h @ ext) v = Some t"
proof (induction n arbitrary: v t)
  case 0
  then show ?case by simp
next
  case (Suc n)
  show ?case
  proof (cases v)
    case (VRef a)
    with Suc.prems have a: "a < length h"
      by (simp split: if_splits)
    show ?thesis
    proof (cases "h ! a")
      case (Arr vs)
      with Suc.prems VRef a obtain ts where t: "t = TArr ts"
        and ts: "list_all2 (\<lambda>v t. snapshot n h v = Some t) vs ts"
        by (auto simp: those_map_eq_Some)
      from ts have "list_all2 (\<lambda>v t. snapshot n (h @ ext) v = Some t) vs ts"
        by (rule list_all2_mono) (rule Suc.IH)
      then show ?thesis
        using VRef a Arr t by (simp add: nth_append those_map_eq_Some)
    next
      case (Obj kvs)
      with Suc.prems VRef a obtain fs where t: "t = TObj fs"
        and fs: "list_all2 (\<lambda>kv kt. fst kt = fst kv \<and> snapshot n h (snd kv) = Some (snd kt)) kvs fs"
        by (auto simp: those_map_eq_Some field_Some)
      from fs have "list_all2 (\<lambda>kv kt. fst kt = fst kv \<and> snapshot n (h @ ext) (snd kv) = Some (snd kt)) kvs fs"
        by (rule list_all2_mono) (simp add: Suc.IH)
      then show ?thesis
        using VRef a Obj t by (simp add: nth_append those_map_eq_Some field_Some)
    qed
  qed (use Suc.prems in auto)
qed


lemma need_list_le:
  "list_all2 (\<lambda>v t. need t \<le> n) vs ts \<Longrightarrow> need_list ts \<le> n"
  by (induction vs ts rule: list_all2_induct) auto

lemma need_fields_le:
  "list_all2 (\<lambda>kv kt. need (snd kt) \<le> n) kvs fs \<Longrightarrow> need_fields fs \<le> n"
  by (induction kvs fs rule: list_all2_induct) auto

lemma snapshot_need: "snapshot n h v = Some t \<Longrightarrow> need t \<le> n"
proof (induction n arbitrary: v t)
  case 0
  then show ?case by simp
next
  case (Suc n)
  show ?case
  proof (cases v)
    case (VRef a)
    with Suc.prems have a: "a < length h"
      by (simp split: if_splits)
    show ?thesis
    proof (cases "h ! a")
      case (Arr vs)
      with Suc.prems VRef a obtain ts where t: "t = TArr ts"
        and ts: "list_all2 (\<lambda>v t. snapshot n h v = Some t) vs ts"
        by (auto simp: those_map_eq_Some)
      from ts have "list_all2 (\<lambda>v t. need t \<le> n) vs ts"
        by (rule list_all2_mono) (rule Suc.IH)
      then show ?thesis
        using t by (simp add: need_list_le)
    next
      case (Obj kvs)
      with Suc.prems VRef a obtain fs where t: "t = TObj fs"
        and fs: "list_all2 (\<lambda>kv kt. fst kt = fst kv \<and> snapshot n h (snd kv) = Some (snd kt)) kvs fs"
        by (auto simp: those_map_eq_Some field_Some)
      from fs have "list_all2 (\<lambda>kv kt. need (snd kt) \<le> n) kvs fs"
        by (rule list_all2_mono) (auto dest: Suc.IH)
      then show ?thesis
        using t by (simp add: need_fields_le)
    qed
  qed (use Suc.prems in auto)
qed

lemma json_trees_all2:
  "list_all2 P vs ts \<Longrightarrow> json_trees ts \<Longrightarrow> list_all2 (\<lambda>v t. P v t \<and> json_tree t) vs ts"
  by (induction vs ts rule: list_all2_induct) auto

lemma json_fields_all2:
  "list_all2 P kvs fs \<Longrightarrow> json_fields fs \<Longrightarrow>
     list_all2 (\<lambda>kv kt. P kv kt \<and> json_tree (snd kt)) kvs fs"
  by (induction kvs fs rule: list_all2_induct) auto

lemma json_trees_keep:
  "json_trees ts \<Longrightarrow> map (\<lambda>t. if t = TUndefined then TNull else t) ts = ts"
  by (induction ts) auto

lemma json_fields_keep:
  "json_fields fs \<Longrightarrow> filter (\<lambda>f. snd f \<noteq> TUndefined) fs = fs"
  by (induction fs) auto

lemma serialize_snapshot:
  "snapshot n h v = Some t \<Longrightarrow> json_tree t \<Longrightarrow> serialize n h v = Some t"
proof (induction n arbitrary: v t)
  case 0
  then show ?case by simp
next
  case (Suc n)
  show ?case
  proof (cases v)
    case (VRef a)
    with Suc.prems have a: "a < length h"
      by (simp split: if_splits)
    show ?thesis
    proof (cases "h ! a")
      case (Arr vs)
      with Suc.prems VRef a obtain ts where t: "t = TArr ts"
        and ts: "list_all2 (\<lambda>v t. snapshot n h v = Some t) vs ts"
        by (auto simp: those_map_eq_Some)
      have j: "json_trees ts"
        using Suc.prems(2) t by simp
      from json_trees_all2 [OF ts j]
      have "list_all2 (\<lambda>v t. serialize n h v = Some t) vs ts"
        by (rule list_all2_mono) (simp add: Suc.IH)
      then have "those (map (serialize n h) vs) = Some ts"
        by (simp add: those_map_eq_Some)
      then show ?thesis
        using VRef a Arr t j by (simp add: json_trees_keep)
    next
      case (Obj kvs)
      with Suc.prems VRef a obtain fs where t: "t = TObj fs"
        and fs: "list_all2 (\<lambda>kv kt. fst kt = fst kv \<and> snapshot n h (snd kv) = Some (snd kt)) kvs fs"
        by (auto simp: those_map_eq_Some field_Some)
      have j: "json_fields fs"
        using Suc.prems(2) t by simp
      from json_fields_all2 [OF fs j]
      have "list_all2 (\<lambda>kv kt. fst kt = fst kv \<and> serialize n h (snd kv) = Some (snd kt)) kvs fs"
        by (rule list_all2_mono) (simp add: Suc.IH)
      then have "those (map (\<lambda>(k, v). map_option (Pair k) (serialize n h v)) kvs) = Some fs"
        by (simp add: those_map_eq_Some field_Some)
      then show ?thesis
        using VRef a Obj t j by (simp add: json_fields_keep)
    qed
  qed (use Suc.prems in auto)
qed


lemma snapshot_leaf:
  assumes "0 < m"
  shows "snapshot m h Undefined = Some TUndefined"
    and "snapshot m h Null = Some TNull"
    and "snapshot m h (VBool b) = Some (TBool b)"
    and "snapshot m h (VNum i) = Some (TNum i)"
    and "snapshot m h (VStr s) = Some (TStr s)"
  using assms by (cases m; simp)+

lemma snapshot_new_Arr:
  assumes "list_all2 (\<lambda>v t. snapshot m h v = Some t) vs ts"
  shows "snapshot (Suc m) (h @ [Arr vs]) (VRef (length h)) = Some (TArr ts)"
proof -
  from assms have "list_all2 (\<lambda>v t. snapshot m (h @ [Arr vs]) v = Some t) vs ts"
    by (rule list_all2_mono) (rule snapshot_append)
  then show ?thesis
    by (simp add: those_map_eq_Some)
qed

lemma snapshot_new_Obj:
  assumes "list_all2 (\<lambda>kv kt. fst kt = fst kv \<and> snapshot m h (snd kv) = Some (snd kt)) kvs fs"
  shows "snapshot (Suc m) (h @ [Obj kvs]) (VRef (length h)) = Some (TObj fs)"
proof -
  from assms
  have "list_all2 (\<lambda>kv kt. fst kt = fst kv \<and> snapshot m (h @ [Obj kvs]) (snd kv) = Some (snd kt))
          kvs fs"
    by (rule list_all2_mono) (simp add: snapshot_append)
  then show ?thesis
    by (simp add: those_map_eq_Some field_Some)
qed

lemma build_snapshot:
  "build h t = (h', v) \<Longrightarrow>
     (\<exists>ext. h' = h @ ext) \<and> (\<forall>m. need t \<le> m \<longrightarrow> snapshot m h' v = Some t)"
  "build_list h ts = (h', vs) \<Longrightarrow>
     (\<exists>ext. h' = h @ ext)
     \<and> (\<forall>m. need_list ts \<le> m \<longrightarrow> list_all2 (\<lambda>v t. snapshot m h' v = Some t) vs ts)"
  "build_fields h fs = (h', kvs) \<Longrightarrow>
     (\<exists>ext. h' = h @ ext)
     \<and> (\<forall>m. need_fields fs \<le> m \<longrightarrow>
           list_all2 (\<lambda>kv kt. fst kt = fst kv \<and> snapshot m h' (snd kv) = Some (snd kt)) kvs fs)"
proof (induction h t and h ts and h fs arbitrary: h' v and h' vs and h' kvs
    rule: build_build_list_build_fields.induct)
  case (6 h ts)
  obtain h1 vs where b: "build_list h ts = (h1, vs)"
    by (cases "build_list h ts")
  with "6.prems" have r: "h' = h1 @ [Arr vs]" "v = VRef (length h1)"
    by simp_all
  from "6.IH" [OF b] obtain ext where ext: "h1 = h @ ext"
    and all: "\<And>m. need_list ts \<le> m \<Longrightarrow> list_all2 (\<lambda>v t. snapshot m h1 v = Some t) vs ts"
    by blast
  have "snapshot m h' v = Some (TArr ts)" if "need (TArr ts) \<le> m" for m
  proof -
    from that obtain m' where m: "m = Suc m'" "need_list ts \<le> m'"
      by (cases m) simp_all
    show ?thesis
      unfolding r m by (rule snapshot_new_Arr) (rule all [OF m(2)])
  qed
  then show ?case
    using r ext by simp
next
  case (7 h fs)
  obtain h1 kvs where b: "build_fields h fs = (h1, kvs)"
    by (cases "build_fields h fs")
  with "7.prems" have r: "h' = h1 @ [Obj kvs]" "v = VRef (length h1)"
    by simp_all
  from "7.IH" [OF b] obtain ext where ext: "h1 = h @ ext"
    and all: "\<And>m. need_fields fs \<le> m \<Longrightarrow>
      list_all2 (\<lambda>kv kt. fst kt = fst kv \<and> snapshot m h1 (snd kv) = Some (snd kt)) kvs fs"
    by blast
  have "snapshot m h' v = Some (TObj fs)" if "need (TObj fs) \<le> m" for m
  proof -
    from that obtain m' where m: "m = Suc m'" "need_fields fs \<le> m'"
      by (cases m) simp_all
    show ?thesis
      unfolding r m by (rule snapshot_new_Obj) (rule all [OF m(2)])
  qed
  then show ?case
    using r ext by simp
next
  case (9 h t ts)
  obtain h1 v1 where b1: "build h t = (h1, v1)"
    by (cases "build h t")
  obtain h2 vs2 where b2: "build_list h1 ts = (h2, vs2)"
    by (cases "build_list h1 ts")
  from "9.prems" b1 b2 have r: "h' = h2" "vs = v1 # vs2"
    by simp_all
  from "9.IH"(1) [OF b1] obtain e1 where e1: "h1 = h @ e1"
    and s1: "\<And>m. need t \<le> m \<Longrightarrow> snapshot m h1 v1 = Some t"
    by blast
  from "9.IH"(2) [OF b1 [symmetric] b2] obtain e2 where e2: "h2 = h1 @ e2"
    and s2: "\<And>m. need_list ts \<le> m \<Longrightarrow> list_all2 (\<lambda>v t. snapshot m h2 v = Some t) vs2 ts"
    by blast
  have "list_all2 (\<lambda>v t. snapshot m h' v = Some t) vs (t # ts)" if "need_list (t # ts) \<le> m" for m
    using that s1 [of m] s2 [of m] snapshot_append [of m h1 v1 t e2] by (simp add: r e2)
  then show ?case
    using r e1 e2 by simp
next
  case (11 h k t fs)
  obtain h1 v1 where b1: "build h t = (h1, v1)"
    by (cases "build h t")
  obtain h2 kvs2 where b2: "build_fields h1 fs = (h2, kvs2)"
    by (cases "build_fields h1 fs")
  from "11.prems" b1 b2 have r: "h' = h2" "kvs = (k, v1) # kvs2"
    by simp_all
  from "11.IH"(1) [OF b1] obtain e1 where e1: "h1 = h @ e1"
    and s1: "\<And>m. need t \<le> m \<Longrightarrow> snapshot m h1 v1 = Some t"
    by blast
  from "11.IH"(2) [OF b1 [symmetric] b2] obtain e2 where e2: "h2 = h1 @ e2"
    and s2: "\<And>m. need_fields fs \<le> m \<Longrightarrow>
      list_all2 (\<lambda>kv kt. fst kt = fst kv \<and> snapshot m h2 (snd kv) = Some (snd kt)) kvs2 fs"
    by blast
  have "list_all2 (\<lambda>kv kt. fst kt = fst kv \<and> snapshot m h' (snd kv) = Some (snd kt))
          kvs ((k, t) # fs)"
    if "need_fields ((k, t) # fs) \<le> m" for m
    using that s1 [of m] s2 [of m] snapshot_append [of m h1 v1 t e2] by (simp add: r e2)
  then show ?case
    using r e1 e2 by simp
qed (auto simp: snapshot_leaf)

lemma snapshot_mono:
  "snapshot n h v = Some t \<Longrightarrow> n \<le> m \<Longrightarrow> snapshot m h v = Some t"
proof (induction n arbitrary: m v t)
  case 0
  then show ?case by simp
next
  case (Suc n)
  from Suc.prems(2) obtain m' where m: "m = Suc m'" "n \<le> m'"
    by (cases m) simp_all
  show ?case
  proof (cases v)
    case (VRef a)
    with Suc.prems have a: "a < length h"
      by (simp split: if_splits)
    show ?thesis
    proof (cases "h ! a")
      case (Arr vs)
      with Suc.prems VRef a obtain ts where t: "t = TArr ts"
        and ts: "list_all2 (\<lambda>v t. snapshot n h v = Some t) vs ts"
        by (auto simp: those_map_eq_Some)
      from ts have "list_all2 (\<lambda>v t. snapshot m' h v = Some t) vs ts"
        by (rule list_all2_mono) (rule Suc.IH [OF _ m(2)])
      then show ?thesis
        using VRef a Arr t m(1) by (simp add: those_map_eq_Some)
    next
      case (Obj kvs)
      with Suc.prems VRef a obtain fs where t: "t = TObj fs"
        and fs: "list_all2 (\<lambda>kv kt. fst kt = fst kv \<and> snapshot n h (snd kv) = Some (snd kt)) kvs fs"
        by (auto simp: those_map_eq_Some field_Some)
      from fs
      have "list_all2 (\<lambda>kv kt. fst kt = fst kv \<and> snapshot m' h (snd kv) = Some (snd kt)) kvs fs"
        by (rule list_all2_mono) (blast intro: Suc.IH [OF _ m(2)])
      then show ?thesis
        using VRef a Obj t m(1) by (simp add: those_map_eq_Some field_Some)
    qed
  qed (use Suc.prems m(1) in auto)
qed

lemma snapshot_VRef:
  assumes "snapshot n h (VRef a) = Some t"
  shows "a < length h" and "(\<exists>ts. t = TArr ts) \<or> (\<exists>fs. t = TObj fs)"
  using assms by (cases n; cases "h ! a"; auto split: if_splits)+

lemma build_fresh:
  assumes "build h t = (h', v)" and "(\<exists>ts. t = TArr ts) \<or> (\<exists>fs. t = TObj fs)"
  shows "\<exists>a'. v = VRef a' \<and> length h \<le> a'"
proof -
  from assms(2) consider ts where "t = TArr ts" | fs where "t = TObj fs"
    by blast
  then show ?thesis
  proof cases
    case 1
    obtain h1 vs where b: "build_list h ts = (h1, vs)"
      by (cases "build_list h ts")
    from build_snapshot(2) [OF b] obtain ext where "h1 = h @ ext"
      by blast
    then show ?thesis
      using assms(1) 1 b by auto
  next
    case 2
    obtain h1 kvs where b: "build_fields h fs = (h1, kvs)"
      by (cases "build_fields h fs")
    from build_snapshot(3) [OF b] obtain ext where "h1 = h @ ext"
      by blast
    then show ?thesis
      using assms(1) 2 b by auto
  qed
qed

text \<open>
  C6. \<^verbatim>\<open>defaultClone\<close> returns \<^verbatim>\<open>undefined\<close> and \<^verbatim>\<open>null\<close> as they are. For an
  object or array \<open>x\<close> that the serialization format can represent (what is reachable
  from it is acyclic and holds no \<^verbatim>\<open>undefined\<close>), it returns a reference to a new
  object, different from \<open>x\<close>, that is deeply equal to \<open>x\<close>: in the heap after the
  call the two have the same snapshot. The objects that were there before are
  unchanged.
\<close>

theorem defaultClone_round_trip:
  "defaultClone h Undefined = Inr (h, Undefined)
   \<and> defaultClone h Null = Inr (h, Null)
   \<and> (representable h (VRef a) \<longrightarrow>
        (\<exists>h' a'. defaultClone h (VRef a) = Inr (h', VRef a')
           \<and> a' \<noteq> a
           \<and> deep_equal h' (VRef a) h' (VRef a')
           \<and> take (length h) h' = h))"
proof (intro conjI impI)
  show "defaultClone h Undefined = Inr (h, Undefined)"
    by (simp add: defaultClone_def)
  show "defaultClone h Null = Inr (h, Null)"
    by (simp add: defaultClone_def)
next
  assume "representable h (VRef a)"
  then obtain t where t: "snapshot (Suc (length h)) h (VRef a) = Some t" and j: "json_tree t"
    by (auto simp: representable_def split: option.splits)
  note shape = snapshot_VRef [OF t]
  have "serialize (Suc (length h)) h (VRef a) = Some t"
    by (rule serialize_snapshot [OF t j])
  moreover have "t \<noteq> TUndefined"
    using j by auto
  ultimately have str: "JSON_stringify h (VRef a) = Inr (Some t)"
    by (simp add: JSON_stringify_def)
  obtain h' v' where b: "build h t = (h', v')"
    by (cases "build h t")
  from build_fresh [OF b shape(2)] obtain a' where a': "v' = VRef a'" "length h \<le> a'"
    by blast
  from build_snapshot(1) [OF b] obtain ext where ext: "h' = h @ ext"
    and snap: "\<And>m. need t \<le> m \<Longrightarrow> snapshot m h' v' = Some t"
    by blast
  have clone: "defaultClone h (VRef a) = Inr (h', VRef a')"
    using str j b a'(1) by (simp add: defaultClone_def JSON_parse_def)
  have len: "Suc (length h) \<le> Suc (length h')"
    by (simp add: ext)
  have "snapshot (Suc (length h)) h' (VRef a) = Some t"
    unfolding ext by (rule snapshot_append [OF t])
  then have orig: "snapshot (Suc (length h')) h' (VRef a) = Some t"
    using len by (rule snapshot_mono)
  have "need t \<le> Suc (length h')"
    using snapshot_need [OF t] len by simp
  then have "snapshot (Suc (length h')) h' v' = Some t"
    by (rule snap)
  then have "snapshot (Suc (length h')) h' (VRef a') = Some t"
    by (simp only: a'(1))
  with orig have "deep_equal h' (VRef a) h' (VRef a')"
    by (simp add: deep_equal_def)
  moreover have "a' \<noteq> a"
    using shape(1) a'(2) by simp
  moreover have "take (length h) h' = h"
    by (simp add: ext)
  ultimately show "\<exists>h' a'. defaultClone h (VRef a) = Inr (h', VRef a')
           \<and> a' \<noteq> a \<and> deep_equal h' (VRef a) h' (VRef a') \<and> take (length h) h' = h"
    using clone by blast
qed

theorem defaultClone_round_trip_witness:
  "representable heap0 (VRef 1)
   \<and> defaultClone heap0 (VRef 1)
       = Inr (heap0 @ [Obj [(''name'', VStr ''Joao''), (''id'', VNum 1)], Arr [VRef 2, Null]],
              VRef 3)
   \<and> (\<exists>h' a'. defaultClone heap0 (VRef 1) = Inr (h', VRef a')
           \<and> a' \<noteq> 1
           \<and> deep_equal h' (VRef 1) h' (VRef a')
           \<and> take (length heap0) h' = heap0)"
proof -
  have r: "representable heap0 (VRef 1)"
    by (simp add: representable_def heap0_def)
  have c: "defaultClone heap0 (VRef 1)
       = Inr (heap0 @ [Obj [(''name'', VStr ''Joao''), (''id'', VNum 1)], Arr [VRef 2, Null]],
              VRef 3)"
    by (simp add: defaultClone_def JSON_stringify_def JSON_parse_def heap0_def)
  show ?thesis
    using defaultClone_round_trip [of heap0 1] r c by simp
qed

end
